theory Spec2Isabelle
  imports Complex_Main "HOL-Library.List_Lexorder"
begin

section \<open>JavaScript values\<close>

text \<open>
  A JavaScript number is an IEEE double: not-a-number, the two infinities, or a finite
  value. Finite doubles are real numbers and \<open><\<close> on them is the order of the reals
  (the two zeros are one value for \<open><\<close>), so a finite number is modelled by the real it
  denotes.
\<close>

datatype jsnum = NaN | NegInf | Fin real | PosInf

text \<open>The operator \<open><\<close> on two numbers: false as soon as one operand is NaN.\<close>

fun num_lt :: "jsnum \<Rightarrow> jsnum \<Rightarrow> bool" where
  "num_lt NaN b = False"
| "num_lt a NaN = False"
| "num_lt NegInf NegInf = False"
| "num_lt NegInf b = True"
| "num_lt (Fin a) NegInf = False"
| "num_lt (Fin a) (Fin b) = (a < b)"
| "num_lt (Fin a) PosInf = True"
| "num_lt PosInf b = False"

instantiation jsnum :: ord
begin

definition less_jsnum :: "jsnum \<Rightarrow> jsnum \<Rightarrow> bool" where
  "less_jsnum a b = num_lt a b"

definition less_eq_jsnum :: "jsnum \<Rightarrow> jsnum \<Rightarrow> bool" where
  "less_eq_jsnum a b = (a \<noteq> NaN \<and> b \<noteq> NaN \<and> \<not> num_lt b a)"

instance ..

end

text \<open>
  A string is its sequence of UTF-16 code units, each a natural number; \<open><\<close> on two
  strings is the lexicographic order of the code units, a proper prefix being smaller.
  \<open>str\<close> writes a string literal.
\<close>

type_synonym jsstring = "nat list"

definition str :: "string \<Rightarrow> jsstring" where
  "str s = map of_char s"

text \<open>
  The values the comparator can receive. A date is its time value (NaN for an invalid
  date), a regular expression its source and flags, an array the list of its elements,
  an object the list of its own enumerable properties in property order (the keys of one
  object are distinct). \<open>Instance c ps\<close> is an instance of a user class \<open>c\<close> with own
  properties \<open>ps\<close>; \<open>Opaque\<close> stands for every other value (a function, a symbol, a
  bigint, a Map, ...), which no predicate of this module accepts.
\<close>

datatype jsvalue =
    Undefined
  | Null
  | Number jsnum
  | String jsstring
  | Boolean bool
  | Date jsnum
  | RegExp jsstring jsstring
  | Array "jsvalue list"
  | Object "(jsstring \<times> jsvalue) list"
  | Instance jsstring "(jsstring \<times> jsvalue) list"
  | Opaque nat

text \<open>\<open>x.toString()\<close> of a regular expression: \<open>/source/flags\<close>.\<close>

definition regexp_toString :: "jsstring \<Rightarrow> jsstring \<Rightarrow> jsstring" where
  "regexp_toString source flags = str ''/'' @ source @ str ''/'' @ flags"

text \<open>
  The operator \<open>x < y\<close> on two values of one primitive kind, as the default rules use it:
  numbers by \<open><\<close> on doubles, strings by code units, booleans as 0 and 1, dates by
  their time values, regular expressions by their \<open>toString()\<close>. On operands of two
  different kinds JavaScript coerces (string to number parsing and so on); that is not
  modelled and \<open>js_lt\<close> is left unspecified there.
\<close>

fun js_lt :: "jsvalue \<Rightarrow> jsvalue \<Rightarrow> bool" where
  "js_lt (Number a) (Number b) = (a < b)"
| "js_lt (String a) (String b) = (a < b)"
| "js_lt (Boolean a) (Boolean b) = (a < b)"
| "js_lt (Date a) (Date b) = (a < b)"
| "js_lt (RegExp s f) (RegExp t g) = (regexp_toString s f < regexp_toString t g)"

text \<open>
  \<open><\<close> on values is \<open>js_lt\<close>, for \<open>comparePrimitives\<close>. The class asks for \<open>\<le>\<close> too: it is
  JavaScript's \<open><=\<close> on the same pairs, which the module never uses.
\<close>

instantiation jsvalue :: ord
begin

definition less_jsvalue :: "jsvalue \<Rightarrow> jsvalue \<Rightarrow> bool" where
  "less_jsvalue x y = js_lt x y"

definition less_eq_jsvalue :: "jsvalue \<Rightarrow> jsvalue \<Rightarrow> bool" where
  "less_eq_jsvalue x y = (js_lt x y \<or> (\<not> js_lt y x \<and> x \<noteq> Number NaN \<and> x \<noteq> Date NaN
     \<and> y \<noteq> Number NaN \<and> y \<noteq> Date NaN))"

instance ..

end

section \<open>compare.js\<close>

subsection \<open>comparePrimitives\<close>

text \<open>
  \<open>if (x < y) return -1; if (x > y) return 1; return 0;\<close> The source applies it to
  rule indices, to lengths, to keys and to values; \<open><\<close> is the one of the operands' type.
\<close>

definition comparePrimitives :: "'a::ord \<Rightarrow> 'a \<Rightarrow> int" where
  "comparePrimitives x y = (if x < y then -1 else if x > y then 1 else 0)"

subsection \<open>compareObjects\<close>

text \<open>\<open>Object.keys(x)\<close> and \<open>x[k]\<close> (undefined when \<open>x\<close> has no property \<open>k\<close>).\<close>

definition keys :: "(jsstring \<times> jsvalue) list \<Rightarrow> jsstring list" where
  "keys x = map fst x"

definition getProp :: "(jsstring \<times> jsvalue) list \<Rightarrow> jsstring \<Rightarrow> jsvalue" where
  "getProp x k = (case map_of x k of Some v \<Rightarrow> v | None \<Rightarrow> Undefined)"

text \<open>The \<open>for\<close> loop of \<open>compareObjects\<close>, from index \<open>i\<close>, and the return after it.\<close>

function compareObjects_loop ::
  "(jsstring \<times> jsvalue) list \<Rightarrow> (jsstring \<times> jsvalue) list \<Rightarrow> (jsvalue \<Rightarrow> jsvalue \<Rightarrow> int)
     \<Rightarrow> jsstring list \<Rightarrow> jsstring list \<Rightarrow> nat \<Rightarrow> int" where
  "compareObjects_loop x y compareProperties keysOfX keysOfY i =
     (let n = length keysOfX; m = length keysOfY in
      if i < n \<and> i < m then
        (let result = comparePrimitives (keysOfX ! i) (keysOfY ! i) in
         if result \<noteq> 0 then result
         else
           (let result = compareProperties (getProp x (keysOfX ! i)) (getProp y (keysOfY ! i)) in
            if result \<noteq> 0 then result
            else compareObjects_loop x y compareProperties keysOfX keysOfY (i + 1)))
      else comparePrimitives n m)"
  by pat_completeness auto
termination
  by (relation "measure (\<lambda>(x, y, c, kx, ky, i). length kx - i)") auto

definition compareObjects ::
  "(jsstring \<times> jsvalue) list \<Rightarrow> (jsstring \<times> jsvalue) list \<Rightarrow> (jsvalue \<Rightarrow> jsvalue \<Rightarrow> int) \<Rightarrow> int" where
  "compareObjects x y compareProperties =
     (let keysOfX = sort (keys x); keysOfY = sort (keys y) in
      compareObjects_loop x y compareProperties keysOfX keysOfY 0)"

subsection \<open>compareArrays\<close>

function compareArrays_loop ::
  "jsvalue list \<Rightarrow> jsvalue list \<Rightarrow> (jsvalue \<Rightarrow> jsvalue \<Rightarrow> int) \<Rightarrow> nat \<Rightarrow> int" where
  "compareArrays_loop x y compareItems i =
     (let n = length x; m = length y in
      if i < n \<and> i < m then
        (let result = compareItems (x ! i) (y ! i) in
         if result \<noteq> 0 then result
         else compareArrays_loop x y compareItems (i + 1))
      else comparePrimitives n m)"
  by pat_completeness auto
termination
  by (relation "measure (\<lambda>(x, y, c, i). length x - i)") auto

definition compareArrays ::
  "jsvalue list \<Rightarrow> jsvalue list \<Rightarrow> (jsvalue \<Rightarrow> jsvalue \<Rightarrow> int) \<Rightarrow> int" where
  "compareArrays x y compareItems = compareArrays_loop x y compareItems 0"

subsection \<open>The predicates\<close>

text \<open>
  \<open>isObject\<close>: \<open>x instanceof Object\<close> with the tag \<open>[object Object]\<close>, which holds of
  plain objects and of instances of user classes, and of no array, date or regular
  expression.
\<close>

fun isObject :: "jsvalue \<Rightarrow> bool" where
  "isObject (Object ps) = True"
| "isObject (Instance c ps) = True"
| "isObject x = False"

fun isArray :: "jsvalue \<Rightarrow> bool" where
  "isArray (Array xs) = True"
| "isArray x = False"

fun isNumber :: "jsvalue \<Rightarrow> bool" where
  "isNumber (Number a) = True"
| "isNumber x = False"

fun isString :: "jsvalue \<Rightarrow> bool" where
  "isString (String s) = True"
| "isString x = False"

fun isBoolean :: "jsvalue \<Rightarrow> bool" where
  "isBoolean (Boolean b) = True"
| "isBoolean x = False"

fun isDate :: "jsvalue \<Rightarrow> bool" where
  "isDate (Date t) = True"
| "isDate x = False"

fun isRegExp :: "jsvalue \<Rightarrow> bool" where
  "isRegExp (RegExp s f) = True"
| "isRegExp x = False"

text \<open>
  \<open>y === x\<close>. Two numbers are strictly equal when neither is NaN and they are the same
  number. Two objects are strictly equal when they are one object; values carry no
  identity here and two object operands are taken to be two objects. The builder uses
  \<open>isLiteral\<close> with \<open>undefined\<close> and with \<open>null\<close> only.
\<close>

fun strictEquals :: "jsvalue \<Rightarrow> jsvalue \<Rightarrow> bool" where
  "strictEquals Undefined Undefined = True"
| "strictEquals Null Null = True"
| "strictEquals (Number a) (Number b) = (a \<noteq> NaN \<and> b \<noteq> NaN \<and> a = b)"
| "strictEquals (String s) (String t) = (s = t)"
| "strictEquals (Boolean a) (Boolean b) = (a = b)"
| "strictEquals y x = False"

definition isLiteral :: "jsvalue \<Rightarrow> jsvalue \<Rightarrow> bool" where
  "isLiteral x = (\<lambda>y. strictEquals y x)"

subsection \<open>Builder\<close>

text \<open>
  A plugin is a predicate and an optional comparator; the field \<open>compare\<close> of the source is
  \<open>cmp\<close> here (the name \<open>get\<close> binds it to), \<open>compare\<close> being the exported comparator. The
  own properties of an object and the elements of an array are what \<open>get\<close> hands to the
  structural comparisons; it does so for objects and for arrays only.
\<close>

record plugin =
  predicate :: "jsvalue \<Rightarrow> bool"
  cmp :: "(jsvalue \<Rightarrow> jsvalue \<Rightarrow> int) option"

datatype Builder = Builder (plugins: "plugin list")

fun properties :: "jsvalue \<Rightarrow> (jsstring \<times> jsvalue) list" where
  "properties (Object ps) = ps"
| "properties (Instance c ps) = ps"

fun elements :: "jsvalue \<Rightarrow> jsvalue list" where
  "elements (Array xs) = xs"

definition ifType :: "Builder \<Rightarrow> (jsvalue \<Rightarrow> bool) \<Rightarrow> (jsvalue \<Rightarrow> jsvalue \<Rightarrow> int) \<Rightarrow> Builder" where
  "ifType this p c = Builder (plugins this @ [\<lparr>predicate = p, cmp = Some c\<rparr>])"

definition thenTypeObject :: "Builder \<Rightarrow> Builder" where
  "thenTypeObject this = Builder (plugins this @ [\<lparr>predicate = isObject, cmp = None\<rparr>])"

definition thenTypeArray :: "Builder \<Rightarrow> Builder" where
  "thenTypeArray this = Builder (plugins this @ [\<lparr>predicate = isArray, cmp = None\<rparr>])"

definition create :: Builder where
  "create = Builder []"

text \<open>
  The loop of \<open>compare\<close> over the plugins from index \<open>k\<close>, with the current \<open>i\<close> and
  \<open>j\<close>; it returns their final values.
\<close>

function scan :: "plugin list \<Rightarrow> jsvalue \<Rightarrow> jsvalue \<Rightarrow> nat \<Rightarrow> int \<Rightarrow> int \<Rightarrow> int \<times> int" where
  "scan ps x y k i j =
     (if k < length ps then
        scan ps x y (k + 1)
          (if predicate (ps ! k) x then int k else i)
          (if predicate (ps ! k) y then int k else j)
      else (i, j))"
  by pat_completeness auto
termination
  by (relation "measure (\<lambda>(ps, x, y, k, i, j). length ps - k)") auto

text \<open>One iteration of each loop, and its exit.\<close>

declare compareArrays_loop.simps [simp del] compareObjects_loop.simps [simp del] scan.simps [simp del]

lemma compareArrays_loop_step:
  "i < length x \<Longrightarrow> i < length y \<Longrightarrow>
   compareArrays_loop x y f i =
     (if f (x ! i) (y ! i) \<noteq> 0 then f (x ! i) (y ! i) else compareArrays_loop x y f (Suc i))"
  by (subst compareArrays_loop.simps) (simp add: Let_def)

lemma compareArrays_loop_done:
  "\<not> (i < length x \<and> i < length y) \<Longrightarrow>
   compareArrays_loop x y f i = comparePrimitives (length x) (length y)"
  by (subst compareArrays_loop.simps) (auto simp: Let_def)

lemma compareObjects_loop_step:
  "i < length kx \<Longrightarrow> i < length ky \<Longrightarrow>
   compareObjects_loop x y f kx ky i =
     (if comparePrimitives (kx ! i) (ky ! i) \<noteq> 0 then comparePrimitives (kx ! i) (ky ! i)
      else if f (getProp x (kx ! i)) (getProp y (ky ! i)) \<noteq> 0
        then f (getProp x (kx ! i)) (getProp y (ky ! i))
      else compareObjects_loop x y f kx ky (Suc i))"
  by (subst compareObjects_loop.simps) (simp add: Let_def)

lemma compareObjects_loop_done:
  "\<not> (i < length kx \<and> i < length ky) \<Longrightarrow>
   compareObjects_loop x y f kx ky i = comparePrimitives (length kx) (length ky)"
  by (subst compareObjects_loop.simps) (auto simp: Let_def)

text \<open>
  The structural comparisons call their comparator on properties and elements of their
  arguments only.
\<close>

lemma compareArrays_loop_cong:
  "(\<And>u v. u \<in> set x \<Longrightarrow> v \<in> set y \<Longrightarrow> f u v = g u v)
   \<Longrightarrow> compareArrays_loop x y f i = compareArrays_loop x y g i"
proof (induction x y f i rule: compareArrays_loop.induct)
  case (1 x y f i)
  show ?case
  proof (cases "i < length x \<and> i < length y")
    case True
    then have "f (x ! i) (y ! i) = g (x ! i) (y ! i)"
      using "1.prems" by simp
    then show ?thesis
      using True "1.IH" "1.prems" by (simp add: compareArrays_loop_step)
  next
    case False
    then show ?thesis
      by (simp add: compareArrays_loop_done)
  qed
qed

lemma compareArrays_cong [fundef_cong]:
  "x = x' \<Longrightarrow> y = y' \<Longrightarrow> (\<And>u v. u \<in> set x' \<Longrightarrow> v \<in> set y' \<Longrightarrow> f u v = g u v)
   \<Longrightarrow> compareArrays x y f = compareArrays x' y' g"
  unfolding compareArrays_def using compareArrays_loop_cong by blast

lemma compareObjects_loop_cong:
  "(\<And>k l. f (getProp x k) (getProp y l) = g (getProp x k) (getProp y l))
   \<Longrightarrow> compareObjects_loop x y f kx ky i = compareObjects_loop x y g kx ky i"
proof (induction x y f kx ky i rule: compareObjects_loop.induct)
  case (1 x y f kx ky i)
  show ?case
  proof (cases "i < length kx \<and> i < length ky")
    case True
    then show ?thesis
      using "1.IH" "1.prems" by (simp add: compareObjects_loop_step)
  next
    case False
    then show ?thesis
      by (simp add: compareObjects_loop_done)
  qed
qed

lemma compareObjects_cong [fundef_cong]:
  "x = x' \<Longrightarrow> y = y' \<Longrightarrow>
   (\<And>k l. f (getProp x' k) (getProp y' l) = g (getProp x' k) (getProp y' l))
   \<Longrightarrow> compareObjects x y f = compareObjects x' y' g"
  unfolding compareObjects_def Let_def using compareObjects_loop_cong by blast

text \<open>A property or an element of a value is smaller than the value.\<close>

lemma size_getProp: "size (getProp ps k) \<le> size_list (size_prod (\<lambda>_. 0) size) ps"
  by (induction ps) (auto simp: getProp_def)

lemma size_getProp_properties: "isObject x \<Longrightarrow> size (getProp (properties x) k) < size x"
  using size_getProp [of "properties x" k] by (cases x) (simp_all add: less_Suc_eq_le)

lemma size_elements: "isArray x \<Longrightarrow> u \<in> set (elements x) \<Longrightarrow> size u < size x"
  by (cases x) (auto simp: less_Suc_eq_le size_list_estimation')

text \<open>
  \<open>get()\<close> returns the closure \<open>compare\<close>; \<open>get this\<close> is that closure. The recursive
  calls are on properties and elements of \<open>x\<close>, so the recursion ends.
\<close>

function get :: "Builder \<Rightarrow> jsvalue \<Rightarrow> jsvalue \<Rightarrow> int" where
  "get this x y =
     (let (i, j) = scan (plugins this) x y 0 (-1) (-1) in
      if i \<noteq> j then comparePrimitives i j
      else
        (case (if i \<ge> 0 then cmp (plugins this ! nat i) else None) of
           Some c \<Rightarrow> c x y
         | None \<Rightarrow>
             if isObject x then
               (if isObject y then compareObjects (properties x) (properties y) (get this) else -1)
             else if isArray x then
               (if isArray y then compareArrays (elements x) (elements y) (get this) else 1)
             else 0))"
  by pat_completeness auto
termination
  apply (relation "measure (\<lambda>(this, x, y). size x)")
  apply (auto simp: size_getProp_properties size_elements)
  done

declare get.simps [simp del]

text \<open>
  The default builder and the default comparator.
\<close>

definition builder :: Builder where
  "builder =
     ifType (ifType (ifType (thenTypeArray (thenTypeObject
       (ifType (ifType (ifType (ifType create
          (isLiteral Undefined) (\<lambda>x y. 0))
          (isLiteral Null) (\<lambda>x y. 0))
          isNumber comparePrimitives)
          isString comparePrimitives)))
          isBoolean comparePrimitives)
          isDate comparePrimitives)
          isRegExp comparePrimitives"

definition compare :: "jsvalue \<Rightarrow> jsvalue \<Rightarrow> int" where
  "compare = get builder"

section \<open>Definitions for the statements\<close>

text \<open>
  The highest index of a rule whose predicate accepts \<open>x\<close>, or \<open>-1\<close> when no rule does.
\<close>

definition spec_highest :: "plugin list \<Rightarrow> jsvalue \<Rightarrow> int" where
  "spec_highest ps x =
     (let ks = filter (\<lambda>k. predicate (ps ! k) x) [0..<length ps] in
      if ks = [] then -1 else int (Max (set ks)))"

text \<open>
  The index of the default rule that classifies a value: what the scan of the default
  rule list returns for it (\<open>spec_highest_builder\<close> below), \<open>-1\<close> for a value no default
  rule accepts.
\<close>

fun rank :: "jsvalue \<Rightarrow> int" where
  "rank Undefined = 0"
| "rank Null = 1"
| "rank (Number a) = 2"
| "rank (String s) = 3"
| "rank (Object ps) = 4"
| "rank (Instance c ps) = 4"
| "rank (Array xs) = 5"
| "rank (Boolean b) = 6"
| "rank (Date t) = 7"
| "rank (RegExp s f) = 8"
| "rank (Opaque n) = -1"

text \<open>
  Lexicographic comparison of two lists with a three-way comparator, the shorter list
  first when one is a prefix of the other; and the entries of an object in the order of
  its sorted keys, with the comparison of two entries, key first.
\<close>

fun lex :: "('a \<Rightarrow> 'a \<Rightarrow> int) \<Rightarrow> 'a list \<Rightarrow> 'a list \<Rightarrow> int" where
  "lex f (a # as) (b # bs) = (if f a b \<noteq> 0 then f a b else lex f as bs)"
| "lex f [] [] = 0"
| "lex f [] (b # bs) = -1"
| "lex f (a # as) [] = 1"

definition entryCompare ::
  "(jsvalue \<Rightarrow> jsvalue \<Rightarrow> int) \<Rightarrow> jsstring \<times> jsvalue \<Rightarrow> jsstring \<times> jsvalue \<Rightarrow> int" where
  "entryCompare f = (\<lambda>(k, v) (l, w).
     if comparePrimitives k l \<noteq> 0 then comparePrimitives k l else f v w)"

definition entries :: "(jsstring \<times> jsvalue) list \<Rightarrow> (jsstring \<times> jsvalue) list" where
  "entries x = map (\<lambda>k. (k, getProp x k)) (sort (keys x))"

text \<open>
  The default categories in the order of the default rule list, and the category of a
  value: an instance of a user class is classified as an object, as \<open>isObject\<close> accepts
  it; an opaque value has no default category.
\<close>

datatype category =
  AbsentMarker | NullCat | NumberCat | StringCat | ObjectCat | ArrayCat | BooleanCat | DateCat
  | PatternCat

fun position :: "category \<Rightarrow> nat" where
  "position AbsentMarker = 0"
| "position NullCat = 1"
| "position NumberCat = 2"
| "position StringCat = 3"
| "position ObjectCat = 4"
| "position ArrayCat = 5"
| "position BooleanCat = 6"
| "position DateCat = 7"
| "position PatternCat = 8"

fun categoryOf :: "jsvalue \<Rightarrow> category option" where
  "categoryOf Undefined = Some AbsentMarker"
| "categoryOf Null = Some NullCat"
| "categoryOf (Number a) = Some NumberCat"
| "categoryOf (String s) = Some StringCat"
| "categoryOf (Object ps) = Some ObjectCat"
| "categoryOf (Instance c ps) = Some ObjectCat"
| "categoryOf (Array xs) = Some ArrayCat"
| "categoryOf (Boolean b) = Some BooleanCat"
| "categoryOf (Date t) = Some DateCat"
| "categoryOf (RegExp s f) = Some PatternCat"
| "categoryOf (Opaque n) = None"

text \<open>
  The object comparison as the specification words it: both key lists sorted, walked in
  lockstep; at each position the keys first, then the values; when one list ends, the
  object with fewer keys is the smaller one.
\<close>

fun spec_walk ::
  "(jsstring \<times> jsvalue) list \<Rightarrow> (jsstring \<times> jsvalue) list \<Rightarrow> (jsvalue \<Rightarrow> jsvalue \<Rightarrow> int)
     \<Rightarrow> jsstring list \<Rightarrow> jsstring list \<Rightarrow> int" where
  "spec_walk x y compareValue (k # ks) (l # ls) =
     (if k < l then -1 else if l < k then 1
      else if compareValue (getProp x k) (getProp y l) \<noteq> 0
        then compareValue (getProp x k) (getProp y l)
      else spec_walk x y compareValue ks ls)"
| "spec_walk x y compareValue [] [] = 0"
| "spec_walk x y compareValue [] (l # ls) = -1"
| "spec_walk x y compareValue (k # ks) [] = 1"

definition spec_compareObjects ::
  "(jsstring \<times> jsvalue) list \<Rightarrow> (jsstring \<times> jsvalue) list \<Rightarrow> (jsvalue \<Rightarrow> jsvalue \<Rightarrow> int) \<Rightarrow> int" where
  "spec_compareObjects x y compareValue = spec_walk x y compareValue (sort (keys x)) (sort (keys y))"

text \<open>
  A value with no NaN in it: no NaN number and no invalid date, at any depth.
\<close>

fun nan_free :: "jsvalue \<Rightarrow> bool" where
  "nan_free (Number a) = (a \<noteq> NaN)"
| "nan_free (Date t) = (t \<noteq> NaN)"
| "nan_free (Array xs) = (\<forall>v \<in> set xs. nan_free v)"
| "nan_free (Object ps) = (\<forall>p \<in> set ps. nan_free (snd p))"
| "nan_free (Instance c ps) = (\<forall>p \<in> set ps. nan_free (snd p))"
| "nan_free x = True"

subsection \<open>Builder objects in a store\<close>

text \<open>
  A \<open>Builder\<close> object holds, in its private field, a reference to an array of plugins; the
  field is assigned in the constructor only. The store is the list of the arrays allocated
  so far and a reference is an index into it. Every builder operation evaluates an array
  literal \<open>[...this.#plugins, plugin]\<close>, which allocates a new array holding a copy of the
  receiver's plugins followed by the new plugin, and passes it to \<open>new Builder\<close>. The closure
  returned by \<open>get()\<close> keeps \<open>this\<close> and reads \<open>this.#plugins\<close> when it is called:
  \<open>get_st this s\<close> is its behaviour in the store \<open>s\<close>.
\<close>

type_synonym store = "plugin list list"

definition new_Builder :: "store \<Rightarrow> plugin list \<Rightarrow> store \<times> nat" where
  "new_Builder s ps = (s @ [ps], length s)"

definition ifType_st ::
  "store \<Rightarrow> nat \<Rightarrow> (jsvalue \<Rightarrow> bool) \<Rightarrow> (jsvalue \<Rightarrow> jsvalue \<Rightarrow> int) \<Rightarrow> store \<times> nat" where
  "ifType_st s this p c = new_Builder s (s ! this @ [\<lparr>predicate = p, cmp = Some c\<rparr>])"

definition thenTypeObject_st :: "store \<Rightarrow> nat \<Rightarrow> store \<times> nat" where
  "thenTypeObject_st s this = new_Builder s (s ! this @ [\<lparr>predicate = isObject, cmp = None\<rparr>])"

definition thenTypeArray_st :: "store \<Rightarrow> nat \<Rightarrow> store \<times> nat" where
  "thenTypeArray_st s this = new_Builder s (s ! this @ [\<lparr>predicate = isArray, cmp = None\<rparr>])"

definition get_st :: "nat \<Rightarrow> store \<Rightarrow> jsvalue \<Rightarrow> jsvalue \<Rightarrow> int" where
  "get_st this s = get (Builder (s ! this))"

text \<open>A sequence of builder operations, run from a store.\<close>

datatype builder_op =
    IfType nat "jsvalue \<Rightarrow> bool" "jsvalue \<Rightarrow> jsvalue \<Rightarrow> int"
  | ThenTypeObject nat
  | ThenTypeArray nat

fun apply_op :: "store \<Rightarrow> builder_op \<Rightarrow> store" where
  "apply_op s (IfType this p c) = fst (ifType_st s this p c)"
| "apply_op s (ThenTypeObject this) = fst (thenTypeObject_st s this)"
| "apply_op s (ThenTypeArray this) = fst (thenTypeArray_st s this)"

fun run :: "store \<Rightarrow> builder_op list \<Rightarrow> store" where
  "run s [] = s"
| "run s (op # ops) = run (apply_op s op) ops"

subsection \<open>The Box class of compare.test.js\<close>

text \<open>
  \<open>class Box { constructor(value) { this.value = value } }\<close>, with the predicate
  \<open>x instanceof Box\<close> and the comparator \<open>(x, y) => x.value - y.value\<close> of the tests, on boxes
  of integers.
\<close>

definition Box :: "real \<Rightarrow> jsvalue" where
  "Box v = Instance (str ''Box'') [(str ''value'', Number (Fin v))]"

definition isBox :: "jsvalue \<Rightarrow> bool" where
  "isBox x = (case x of Instance c ps \<Rightarrow> c = str ''Box'' | _ \<Rightarrow> False)"

definition boxValue :: "jsvalue \<Rightarrow> int" where
  "boxValue x = (case getProp (properties x) (str ''value'') of Number (Fin r) \<Rightarrow> \<lfloor>r\<rfloor> | _ \<Rightarrow> 0)"

definition compareBox :: "jsvalue \<Rightarrow> jsvalue \<Rightarrow> int" where
  "compareBox x y = boxValue x - boxValue y"

section \<open>The scan of the rule list\<close>

lemma Max_set_sorted: "sorted xs \<Longrightarrow> xs \<noteq> [] \<Longrightarrow> Max (set xs) = last (xs :: nat list)"
proof (induction xs)
  case Nil
  then show ?case by simp
next
  case (Cons a xs)
  show ?case
  proof (cases "xs = []")
    case True
    then show ?thesis by simp
  next
    case False
    then have "last xs \<in> set xs" by simp
    then have "a \<le> last xs" using Cons.prems by auto
    then show ?thesis using Cons False by (simp add: max_def)
  qed
qed

lemma last_filter_upt_Max:
  "filter P [k..<n] \<noteq> [] \<Longrightarrow> last (filter P [k..<n]) = Max (set (filter P [k..<n]))"
proof -
  assume ne: "filter P [k..<n] \<noteq> []"
  have s: "sorted (filter P [k..<n])" by (rule sorted_wrt_filter) simp
  show ?thesis
    using Max_set_sorted [OF s ne] by simp
qed

lemma scan_step:
  "k < length ps \<Longrightarrow> scan ps x y k i j =
     scan ps x y (Suc k) (if predicate (ps ! k) x then int k else i)
       (if predicate (ps ! k) y then int k else j)"
  by (subst scan.simps) simp

lemma scan_done: "\<not> k < length ps \<Longrightarrow> scan ps x y k i j = (i, j)"
  by (subst scan.simps) simp

lemma scan_last:
  "scan ps x y k i j =
     (let kx = filter (\<lambda>m. predicate (ps ! m) x) [k..<length ps];
          ky = filter (\<lambda>m. predicate (ps ! m) y) [k..<length ps]
      in (if kx = [] then i else int (last kx), if ky = [] then j else int (last ky)))"
proof (induction ps x y k i j rule: scan.induct)
  case (1 ps x y k i j)
  show ?case
  proof (cases "k < length ps")
    case True
    then show ?thesis
      using "1.IH" by (simp add: scan_step upt_conv_Cons Let_def)
  next
    case False
    then show ?thesis by (simp add: scan_done)
  qed
qed

lemma spec_highest_last:
  "spec_highest ps x =
     (let ks = filter (\<lambda>k. predicate (ps ! k) x) [0..<length ps] in
      if ks = [] then -1 else int (last ks))"
  by (simp add: spec_highest_def Let_def last_filter_upt_Max)

lemma spec_highest_Nil: "spec_highest [] x = -1"
  by (simp add: spec_highest_def)

lemma spec_highest_snoc:
  "spec_highest (ps @ [p]) x = (if predicate p x then int (length ps) else spec_highest ps x)"
proof -
  have "filter (\<lambda>k. predicate ((ps @ [p]) ! k) x) [0..<length ps]
      = filter (\<lambda>k. predicate (ps ! k) x) [0..<length ps]"
    by (rule filter_cong) (auto simp: nth_append)
  then show ?thesis
    by (simp add: spec_highest_last Let_def)
qed

lemma spec_highest_range: "-1 \<le> spec_highest ps x \<and> spec_highest ps x < int (length ps)"
  by (induction ps rule: rev_induct) (auto simp: spec_highest_snoc spec_highest_Nil)

lemma spec_highest_accepts:
  "0 \<le> spec_highest ps x \<Longrightarrow> predicate (ps ! nat (spec_highest ps x)) x"
proof (induction ps rule: rev_induct)
  case Nil
  then show ?case by (simp add: spec_highest_Nil)
next
  case (snoc p ps)
  then show ?case
    using spec_highest_range [of ps x]
    by (auto simp: spec_highest_snoc nth_append split: if_splits)
qed

lemma spec_highest_above:
  "spec_highest ps x < int k \<Longrightarrow> k < length ps \<Longrightarrow> \<not> predicate (ps ! k) x"
proof (induction ps rule: rev_induct)
  case Nil
  then show ?case by simp
next
  case (snoc p ps)
  then show ?case
    using spec_highest_range [of ps x]
    by (cases "k = length ps") (auto simp: spec_highest_snoc nth_append split: if_splits)
qed

lemma scan_spec_highest:
  "scan ps x y 0 (-1) (-1) = (spec_highest ps x, spec_highest ps y)"
  by (simp add: scan_last spec_highest_last Let_def)

section \<open>The default rule list\<close>

lemma get_unfold:
  "get this x y =
     (let i = spec_highest (plugins this) x; j = spec_highest (plugins this) y in
      if i \<noteq> j then comparePrimitives i j
      else
        (case (if i \<ge> 0 then cmp (plugins this ! nat i) else None) of
           Some c \<Rightarrow> c x y
         | None \<Rightarrow>
             if isObject x then
               (if isObject y then compareObjects (properties x) (properties y) (get this) else -1)
             else if isArray x then
               (if isArray y then compareArrays (elements x) (elements y) (get this) else 1)
             else 0))"
  by (subst get.simps) (simp add: scan_spec_highest)

lemma plugins_builder:
  "plugins builder =
    [\<lparr>predicate = isLiteral Undefined, cmp = Some (\<lambda>x y. 0)\<rparr>,
     \<lparr>predicate = isLiteral Null, cmp = Some (\<lambda>x y. 0)\<rparr>,
     \<lparr>predicate = isNumber, cmp = Some comparePrimitives\<rparr>,
     \<lparr>predicate = isString, cmp = Some comparePrimitives\<rparr>,
     \<lparr>predicate = isObject, cmp = None\<rparr>,
     \<lparr>predicate = isArray, cmp = None\<rparr>,
     \<lparr>predicate = isBoolean, cmp = Some comparePrimitives\<rparr>,
     \<lparr>predicate = isDate, cmp = Some comparePrimitives\<rparr>,
     \<lparr>predicate = isRegExp, cmp = Some comparePrimitives\<rparr>]"
  by (simp add: builder_def ifType_def thenTypeObject_def thenTypeArray_def create_def)

lemma spec_highest_builder: "spec_highest (plugins builder) x = rank x"
proof -
  have e: "plugins builder =
    ((((((((([] @ [\<lparr>predicate = isLiteral Undefined, cmp = Some (\<lambda>x y. 0)\<rparr>])
     @ [\<lparr>predicate = isLiteral Null, cmp = Some (\<lambda>x y. 0)\<rparr>])
     @ [\<lparr>predicate = isNumber, cmp = Some comparePrimitives\<rparr>])
     @ [\<lparr>predicate = isString, cmp = Some comparePrimitives\<rparr>])
     @ [\<lparr>predicate = isObject, cmp = None\<rparr>])
     @ [\<lparr>predicate = isArray, cmp = None\<rparr>])
     @ [\<lparr>predicate = isBoolean, cmp = Some comparePrimitives\<rparr>])
     @ [\<lparr>predicate = isDate, cmp = Some comparePrimitives\<rparr>])
     @ [\<lparr>predicate = isRegExp, cmp = Some comparePrimitives\<rparr>])"
    by (simp add: plugins_builder)
  show ?thesis
    unfolding e spec_highest_snoc
    by (cases x) (simp_all add: spec_highest_Nil isLiteral_def)
qed

lemma rank_isObject: "(rank y = 4) = isObject y"
  by (cases y) simp_all

lemma rank_isArray: "(rank y = 5) = isArray y"
  by (cases y) simp_all

lemma compare_unfold:
  "compare x y =
     (if rank x \<noteq> rank y then comparePrimitives (rank x) (rank y)
      else if isNumber x \<or> isString x \<or> isBoolean x \<or> isDate x \<or> isRegExp x
        then comparePrimitives x y
      else if isObject x then compareObjects (properties x) (properties y) compare
      else if isArray x then compareArrays (elements x) (elements y) compare
      else 0)"
proof (cases "rank x = rank y")
  case False
  then show ?thesis
    unfolding compare_def by (subst get_unfold) (simp add: spec_highest_builder Let_def)
next
  case True
  have "get builder x y =
     (if isNumber x \<or> isString x \<or> isBoolean x \<or> isDate x \<or> isRegExp x
        then comparePrimitives x y
      else if isObject x then compareObjects (properties x) (properties y) (get builder)
      else if isArray x then compareArrays (elements x) (elements y) (get builder)
      else 0)"
  proof -
    have g: "get builder x y =
      (case (if rank x \<ge> 0 then cmp (plugins builder ! nat (rank x)) else None) of
         Some c \<Rightarrow> c x y
       | None \<Rightarrow>
           if isObject x then
             (if isObject y then compareObjects (properties x) (properties y) (get builder) else -1)
           else if isArray x then
             (if isArray y then compareArrays (elements x) (elements y) (get builder) else 1)
           else 0)"
      using True by (subst get_unfold) (simp add: spec_highest_builder Let_def)
    show ?thesis
      unfolding g using True rank_isObject [of y] rank_isArray [of y]
      by (cases x) (simp_all add: plugins_builder)
  qed
  then show ?thesis
    using True by (simp add: compare_def)
qed

section \<open>The loops as lexicographic comparisons\<close>

lemma lex_exhausted:
  "xs = [] \<or> ys = [] \<Longrightarrow> lex f xs ys = comparePrimitives (length xs) (length ys)"
  by (cases xs; cases ys) (auto simp: comparePrimitives_def)

lemma comparePrimitives_nat_shift:
  "i \<le> n \<Longrightarrow> i \<le> m \<Longrightarrow> comparePrimitives (n - i) (m - i) = comparePrimitives (n :: nat) m"
  by (auto simp: comparePrimitives_def)

lemma compareArrays_loop_lex:
  "i \<le> length x \<Longrightarrow> i \<le> length y \<Longrightarrow>
   compareArrays_loop x y f i = lex f (drop i x) (drop i y)"
proof (induction x y f i rule: compareArrays_loop.induct)
  case (1 x y f i)
  show ?case
  proof (cases "i < length x \<and> i < length y")
    case True
    then have "drop i x = x ! i # drop (Suc i) x" "drop i y = y ! i # drop (Suc i) y"
      by (simp_all add: Cons_nth_drop_Suc)
    then show ?thesis
      using True "1.IH" by (simp add: compareArrays_loop_step)
  next
    case False
    then have "drop i x = [] \<or> drop i y = []" by auto
    then show ?thesis
      using False "1.prems"
      by (simp add: compareArrays_loop_done lex_exhausted comparePrimitives_nat_shift)
  qed
qed

lemma compareArrays_lex: "compareArrays x y f = lex f x y"
  by (simp add: compareArrays_def compareArrays_loop_lex)

lemma compareObjects_loop_lex:
  "i \<le> length kx \<Longrightarrow> i \<le> length ky \<Longrightarrow>
   compareObjects_loop x y f kx ky i =
     lex (entryCompare f) (map (\<lambda>k. (k, getProp x k)) (drop i kx))
       (map (\<lambda>k. (k, getProp y k)) (drop i ky))"
proof (induction x y f kx ky i rule: compareObjects_loop.induct)
  case (1 x y f kx ky i)
  show ?case
  proof (cases "i < length kx \<and> i < length ky")
    case True
    then have "drop i kx = kx ! i # drop (Suc i) kx" "drop i ky = ky ! i # drop (Suc i) ky"
      by (simp_all add: Cons_nth_drop_Suc)
    then show ?thesis
      using True "1.IH" by (simp add: compareObjects_loop_step entryCompare_def)
  next
    case False
    then have "map (\<lambda>k. (k, getProp x k)) (drop i kx) = []
        \<or> map (\<lambda>k. (k, getProp y k)) (drop i ky) = []" by auto
    then show ?thesis
      using False "1.prems"
      by (simp add: compareObjects_loop_done lex_exhausted comparePrimitives_nat_shift)
  qed
qed

lemma compareObjects_lex:
  "compareObjects x y f = lex (entryCompare f) (entries x) (entries y)"
  by (simp add: compareObjects_def compareObjects_loop_lex entries_def)

lemma lex_refl: "(\<And>a. a \<in> set xs \<Longrightarrow> f a a = 0) \<Longrightarrow> lex f xs xs = 0"
  by (induction xs) simp_all

lemma lex_antisym:
  "(\<And>a b. a \<in> set xs \<Longrightarrow> b \<in> set ys \<Longrightarrow> f a b = - f b a) \<Longrightarrow> lex f xs ys = - lex f ys xs"
proof (induction f xs ys rule: lex.induct)
  case (1 f a as b bs)
  have "f a b = - f b a" using "1.prems" by simp
  moreover have "f a b = 0 \<Longrightarrow> lex f as bs = - lex f bs as"
    using "1.IH" "1.prems" by simp
  ultimately show ?case by simp
qed simp_all

lemma lex_range:
  "(\<And>a b. a \<in> set xs \<Longrightarrow> b \<in> set ys \<Longrightarrow> f a b \<in> {-1, 0, 1}) \<Longrightarrow> lex f xs ys \<in> {-1, 0, 1}"
proof (induction f xs ys rule: lex.induct)
  case (1 f a as b bs)
  have "f a b \<in> {-1, 0, 1}" using "1.prems" by simp
  moreover have "f a b = 0 \<Longrightarrow> lex f as bs \<in> {-1, 0, 1}"
    using "1.IH" "1.prems" by simp
  ultimately show ?case by auto
qed simp_all

lemma comparePrimitives_linorder_antisym:
  "comparePrimitives (x :: 'a :: linorder) y = - comparePrimitives y x"
  by (auto simp: comparePrimitives_def)

lemma comparePrimitives_range: "comparePrimitives x y \<in> {-1, 0, 1}"
  by (simp add: comparePrimitives_def)

lemma comparePrimitives_refl: "comparePrimitives (x :: 'a :: linorder) x = 0"
  by (simp add: comparePrimitives_def)

lemma num_lt_asym: "num_lt a b \<Longrightarrow> \<not> num_lt b a"
  by (cases a; cases b) auto

lemma num_lt_irrefl: "\<not> num_lt a a"
  by (cases a) auto

lemma comparePrimitives_NaN:
  "comparePrimitives NaN a = 0" "comparePrimitives a NaN = 0"
  by (cases a; simp add: comparePrimitives_def less_jsnum_def)+

lemma comparePrimitives_jsnum_antisym:
  "comparePrimitives (a :: jsnum) b = - comparePrimitives b a"
  using num_lt_asym [of a b] by (auto simp: comparePrimitives_def less_jsnum_def)

lemma comparePrimitives_jsnum_refl: "comparePrimitives (a :: jsnum) a = 0"
  by (simp add: comparePrimitives_def less_jsnum_def num_lt_irrefl)

lemma comparePrimitives_value_simps:
  "comparePrimitives (Number a) (Number b) = comparePrimitives a b"
  "comparePrimitives (String s) (String t) = comparePrimitives s t"
  "comparePrimitives (Boolean p) (Boolean q) = comparePrimitives p q"
  "comparePrimitives (Date a) (Date b) = comparePrimitives a b"
  "comparePrimitives (RegExp s f) (RegExp t g) =
     comparePrimitives (regexp_toString s f) (regexp_toString t g)"
  by (simp_all add: comparePrimitives_def less_jsvalue_def)

lemma entries_mem:
  "e \<in> set (entries ps) \<Longrightarrow> \<exists>k. e = (k, getProp ps k)"
  by (auto simp: entries_def)

lemma compare_refl: "compare x x = 0"
proof (induction x rule: measure_induct_rule [where f = size])
  case (less x)
  show ?case
  proof (cases x)
    case (Array xs)
    have "\<And>a. a \<in> set xs \<Longrightarrow> size a < size x"
      using size_elements [of x] Array by simp
    then have "lex compare xs xs = 0"
      using less by (intro lex_refl) blast
    then show ?thesis
      using Array by (subst compare_unfold) (simp add: compareArrays_lex)
  next
    case (Object ps)
    have "lex (entryCompare compare) (entries ps) (entries ps) = 0"
    proof (rule lex_refl)
      fix e assume "e \<in> set (entries ps)"
      then obtain k where e: "e = (k, getProp ps k)" using entries_mem by blast
      have "size (getProp ps k) < size x"
        using size_getProp_properties [of x k] Object by simp
      then show "entryCompare compare e e = 0"
        using less e by (simp add: entryCompare_def comparePrimitives_refl)
    qed
    then show ?thesis
      using Object by (subst compare_unfold) (simp add: compareObjects_lex)
  next
    case (Instance c ps)
    have "lex (entryCompare compare) (entries ps) (entries ps) = 0"
    proof (rule lex_refl)
      fix e assume "e \<in> set (entries ps)"
      then obtain k where e: "e = (k, getProp ps k)" using entries_mem by blast
      have "size (getProp ps k) < size x"
        using size_getProp_properties [of x k] Instance by simp
      then show "entryCompare compare e e = 0"
        using less e by (simp add: entryCompare_def comparePrimitives_refl)
    qed
    then show ?thesis
      using Instance by (subst compare_unfold) (simp add: compareObjects_lex)
  qed (simp_all add: compare_unfold comparePrimitives_value_simps comparePrimitives_refl
        comparePrimitives_jsnum_refl)
qed

lemma entryCompare_antisym:
  "f v w = - f w v \<Longrightarrow> entryCompare f (k, v) (l, w) = - entryCompare f (l, w) (k, v)"
  using comparePrimitives_linorder_antisym [of k l] by (simp add: entryCompare_def)

lemma compareObjects_antisym:
  assumes "\<And>k l. f (getProp x k) (getProp y l) = - f (getProp y l) (getProp x k)"
  shows "compareObjects x y f = - compareObjects y x f"
  unfolding compareObjects_lex
proof (rule lex_antisym)
  fix a b assume "a \<in> set (entries x)" "b \<in> set (entries y)"
  then obtain k l where e: "a = (k, getProp x k)" "b = (l, getProp y l)"
    using entries_mem by blast
  show "entryCompare f a b = - entryCompare f b a"
    unfolding e by (rule entryCompare_antisym) (rule assms)
qed

lemma rank_kind:
  "isNumber x = (rank x = 2)" "isString x = (rank x = 3)" "isObject x = (rank x = 4)"
  "isArray x = (rank x = 5)" "isBoolean x = (rank x = 6)" "isDate x = (rank x = 7)"
  "isRegExp x = (rank x = 8)"
  by (cases x; simp)+

lemma kind_cases:
  "isNumber x \<Longrightarrow> \<exists>a. x = Number a" "isString x \<Longrightarrow> \<exists>s. x = String s"
  "isBoolean x \<Longrightarrow> \<exists>p. x = Boolean p" "isDate x \<Longrightarrow> \<exists>a. x = Date a"
  "isRegExp x \<Longrightarrow> \<exists>s f. x = RegExp s f" "isArray x \<Longrightarrow> \<exists>xs. x = Array xs"
  by (cases x; simp)+

lemma rank_same_kind:
  "rank x = rank y \<Longrightarrow>
     isNumber x = isNumber y \<and> isString x = isString y \<and> isBoolean x = isBoolean y
     \<and> isDate x = isDate y \<and> isRegExp x = isRegExp y \<and> isObject x = isObject y
     \<and> isArray x = isArray y"
  by (simp add: rank_kind)

lemma comparePrimitives_same_kind_antisym:
  "comparePrimitives (Number a) (Number b) = - comparePrimitives (Number b) (Number a)"
  "comparePrimitives (String s) (String t) = - comparePrimitives (String t) (String s)"
  "comparePrimitives (Boolean p) (Boolean q) = - comparePrimitives (Boolean q) (Boolean p)"
  "comparePrimitives (Date a) (Date b) = - comparePrimitives (Date b) (Date a)"
  "comparePrimitives (RegExp s f) (RegExp t g) = - comparePrimitives (RegExp t g) (RegExp s f)"
  unfolding comparePrimitives_value_simps
  by (rule comparePrimitives_jsnum_antisym comparePrimitives_linorder_antisym)+

lemma comparePrimitives_value_antisym:
  assumes "rank x = rank y" "isNumber x \<or> isString x \<or> isBoolean x \<or> isDate x \<or> isRegExp x"
  shows "comparePrimitives x y = - comparePrimitives y x"
proof -
  note k = rank_same_kind [OF assms(1)]
  consider "isNumber x" "isNumber y" | "isString x" "isString y" | "isBoolean x" "isBoolean y"
    | "isDate x" "isDate y" | "isRegExp x" "isRegExp y"
    using assms(2) k by blast
  then show ?thesis
  proof cases
    case 1
    then obtain a b where e: "x = Number a" "y = Number b" using kind_cases(1) by blast
    show ?thesis unfolding e by (rule comparePrimitives_same_kind_antisym)
  next
    case 2
    then obtain a b where e: "x = String a" "y = String b" using kind_cases(2) by blast
    show ?thesis unfolding e by (rule comparePrimitives_same_kind_antisym)
  next
    case 3
    then obtain a b where e: "x = Boolean a" "y = Boolean b" using kind_cases(3) by blast
    show ?thesis unfolding e by (rule comparePrimitives_same_kind_antisym)
  next
    case 4
    then obtain a b where e: "x = Date a" "y = Date b" using kind_cases(4) by blast
    show ?thesis unfolding e by (rule comparePrimitives_same_kind_antisym)
  next
    case 5
    then obtain s f t g where e: "x = RegExp s f" "y = RegExp t g" using kind_cases(5) by blast
    show ?thesis unfolding e by (rule comparePrimitives_same_kind_antisym)
  qed
qed

lemma compare_antisym: "compare x y = - compare y x"
proof (induction x arbitrary: y rule: measure_induct_rule [where f = size])
  case (less x)
  show ?case
  proof (cases "rank x = rank y")
    case False
    then show ?thesis
      using comparePrimitives_linorder_antisym [of "rank x" "rank y"]
      by (simp add: compare_unfold [of x y] compare_unfold [of y x])
  next
    case True
    note k = rank_same_kind [OF True]
    consider (prim) "isNumber x \<or> isString x \<or> isBoolean x \<or> isDate x \<or> isRegExp x"
      | (obj) "\<not> (isNumber x \<or> isString x \<or> isBoolean x \<or> isDate x \<or> isRegExp x)" "isObject x"
      | (arr) "\<not> (isNumber x \<or> isString x \<or> isBoolean x \<or> isDate x \<or> isRegExp x)"
          "\<not> isObject x" "isArray x"
      | (other) "\<not> (isNumber x \<or> isString x \<or> isBoolean x \<or> isDate x \<or> isRegExp x)"
          "\<not> isObject x" "\<not> isArray x"
      by blast
    then show ?thesis
    proof cases
      case prim
      then show ?thesis
        using True k comparePrimitives_value_antisym [OF True prim]
        by (simp add: compare_unfold [of x y] compare_unfold [of y x])
    next
      case obj
      have "compareObjects (properties x) (properties y) compare
          = - compareObjects (properties y) (properties x) compare"
        using less size_getProp_properties [OF obj(2)] by (intro compareObjects_antisym) blast
      then show ?thesis
        using True k obj by (simp add: compare_unfold [of x y] compare_unfold [of y x])
    next
      case arr
      have "lex compare (elements x) (elements y) = - lex compare (elements y) (elements x)"
        using less size_elements [OF arr(3)] by (intro lex_antisym) blast
      then show ?thesis
        using True k arr
        by (simp add: compare_unfold [of x y] compare_unfold [of y x] compareArrays_lex)
    next
      case other
      then show ?thesis
        using True k by (simp add: compare_unfold [of x y] compare_unfold [of y x])
    qed
  qed
qed

lemma compare_range: "compare x y \<in> {-1, 0, 1}"
proof (induction x arbitrary: y rule: measure_induct_rule [where f = size])
  case (less x)
  have o: "isObject x \<Longrightarrow> compareObjects (properties x) (properties y) compare \<in> {-1, 0, 1}"
  proof -
    assume ob: "isObject x"
    show ?thesis
      unfolding compareObjects_lex
    proof (rule lex_range)
      fix a b assume "a \<in> set (entries (properties x))" "b \<in> set (entries (properties y))"
      then obtain k l where e: "a = (k, getProp (properties x) k)" "b = (l, getProp (properties y) l)"
        using entries_mem by blast
      have "compare (getProp (properties x) k) (getProp (properties y) l) \<in> {-1, 0, 1}"
        using less size_getProp_properties [OF ob] by blast
      then show "entryCompare compare a b \<in> {-1, 0, 1}"
        using e comparePrimitives_range [of k l] by (auto simp: entryCompare_def)
    qed
  qed
  have a: "isArray x \<Longrightarrow> compareArrays (elements x) (elements y) compare \<in> {-1, 0, 1}"
    unfolding compareArrays_lex
    using less size_elements [of x] by (intro lex_range) blast
  show ?case
    using o a comparePrimitives_range [of "rank x" "rank y"] comparePrimitives_range [of x y]
    by (subst compare_unfold) auto
qed

section \<open>Categories, the specification's object comparison, the empty and extended builders\<close>

lemma rank_category:
  "rank x = (case categoryOf x of Some c \<Rightarrow> int (position c) | None \<Rightarrow> -1)"
  by (cases x) simp_all

lemma position_inj: "position a = position b \<Longrightarrow> a = b"
  by (cases a; cases b) simp_all

lemma spec_walk_lex:
  "spec_walk x y f ks ls =
     lex (entryCompare f) (map (\<lambda>k. (k, getProp x k)) ks) (map (\<lambda>k. (k, getProp y k)) ls)"
  by (induction x y f ks ls rule: spec_walk.induct)
     (auto simp: entryCompare_def comparePrimitives_def)

lemma compareObjects_spec: "compareObjects x y f = spec_compareObjects x y f"
  by (simp add: compareObjects_lex spec_compareObjects_def spec_walk_lex entries_def)

lemma compare_key_order_example: "compare (Object [(str ''a'', Number (Fin 1)), (str ''b'', Number (Fin 2))])
               (Object [(str ''b'', Number (Fin 2)), (str ''a'', Number (Fin 1))]) = 0"
  by code_simp

lemma compare_key_tiebreak_example: "compare (Object [(str ''a'', Number (Fin 1)), (str ''b'', Number (Fin 1))])
               (Object [(str ''a'', Number (Fin 1)), (str ''c'', Number (Fin 1))]) = -1"
  by code_simp

lemma get_create:
  "get create x y =
     (if isObject x then
        (if isObject y then compareObjects (properties x) (properties y) (get create) else -1)
      else if isArray x then
        (if isArray y then compareArrays (elements x) (elements y) (get create) else 1)
      else 0)"
  by (subst get_unfold) (simp add: create_def spec_highest_Nil)

lemma plugins_ifType: "plugins (ifType this p c) = plugins this @ [\<lparr>predicate = p, cmp = Some c\<rparr>]"
  by (simp add: ifType_def)

lemma get_ifType_last:
  "p x \<Longrightarrow> p y \<Longrightarrow> get (ifType this p c) x y = c x y"
  by (subst get_unfold) (simp add: plugins_ifType spec_highest_snoc)

lemma get_ifType_above:
  assumes "p x" "\<not> p y"
  shows "get (ifType this p c) x y = 1" "get (ifType this p c) y x = -1"
proof -
  have "spec_highest (plugins this) y < int (length (plugins this))"
    using spec_highest_range by blast
  then show "get (ifType this p c) x y = 1" "get (ifType this p c) y x = -1"
    using assms
    by (simp_all add: get_unfold [of _ x y] get_unfold [of _ y x] plugins_ifType spec_highest_snoc
        comparePrimitives_def)
qed

section \<open>Transitivity on values without NaN\<close>

lemma nan_free_getProp:
  "isObject x \<Longrightarrow> nan_free x \<Longrightarrow> nan_free (getProp (properties x) k)"
proof -
  have "(\<forall>p \<in> set ps. nan_free (snd p)) \<Longrightarrow> nan_free (getProp ps k)" for ps
    by (fastforce simp: getProp_def split: option.splits dest: map_of_SomeD)
  then show "isObject x \<Longrightarrow> nan_free x \<Longrightarrow> nan_free (getProp (properties x) k)"
    by (cases x) simp_all
qed

lemma nan_free_elements:
  "isArray x \<Longrightarrow> nan_free x \<Longrightarrow> v \<in> set (elements x) \<Longrightarrow> nan_free v"
  by (cases x) simp_all

lemma lex_le_trans:
  assumes anti: "\<And>a b. f a b = - f b a"
    and tr: "\<And>a b c. a \<in> A \<Longrightarrow> b \<in> A \<Longrightarrow> c \<in> A \<Longrightarrow> f a b \<le> 0 \<Longrightarrow> f b c \<le> 0 \<Longrightarrow> f a c \<le> 0"
  shows "set xs \<subseteq> A \<Longrightarrow> set ys \<subseteq> A \<Longrightarrow> set zs \<subseteq> A \<Longrightarrow>
         lex f xs ys \<le> 0 \<Longrightarrow> lex f ys zs \<le> 0 \<Longrightarrow> lex f xs zs \<le> 0"
proof (induction xs arbitrary: ys zs)
  case Nil
  then show ?case by (cases zs) simp_all
next
  case (Cons a as)
  from Cons.prems(4) obtain b bs where ys: "ys = b # bs"
    by (cases ys) simp_all
  from Cons.prems(5) ys obtain c cs where zs: "zs = c # cs"
    by (cases zs) simp_all
  have mem: "a \<in> A" "b \<in> A" "c \<in> A" "set as \<subseteq> A" "set bs \<subseteq> A" "set cs \<subseteq> A"
    using Cons.prems(1-3) ys zs by simp_all
  have ab: "f a b < 0 \<or> (f a b = 0 \<and> lex f as bs \<le> 0)"
    using Cons.prems(4) ys by (simp split: if_splits)
  have bc: "f b c < 0 \<or> (f b c = 0 \<and> lex f bs cs \<le> 0)"
    using Cons.prems(5) ys zs by (simp split: if_splits)
  have le: "f a c \<le> 0"
    using ab bc tr [OF mem(1-3)] by auto
  show ?case
  proof (cases "f a c = 0")
    case False
    then show ?thesis using le zs by simp
  next
    case True
    then have ca: "f c a \<le> 0" using anti [of c a] by simp
    have "f b a \<le> 0" using tr [OF mem(2) mem(3) mem(1)] bc ca by auto
    then have ab0: "f a b = 0" using ab anti [of a b] by auto
    have "f c b \<le> 0" using tr [OF mem(3) mem(1) mem(2)] ca ab0 by auto
    then have bc0: "f b c = 0" using bc anti [of b c] by auto
    have "lex f as cs \<le> 0"
      using Cons.IH [OF mem(4-6)] ab bc ab0 bc0 by auto
    then show ?thesis using True zs by simp
  qed
qed

lemma comparePrimitives_linorder_le: "(comparePrimitives (x :: 'a :: linorder) y \<le> 0) = (x \<le> y)"
  by (auto simp: comparePrimitives_def)

lemma comparePrimitives_jsnum_le_trans:
  "a \<noteq> NaN \<Longrightarrow> b \<noteq> NaN \<Longrightarrow> c \<noteq> NaN \<Longrightarrow>
   comparePrimitives a b \<le> 0 \<Longrightarrow> comparePrimitives b c \<le> 0 \<Longrightarrow> comparePrimitives (a :: jsnum) c \<le> 0"
  by (cases a; cases b; cases c) (auto simp: comparePrimitives_def less_jsnum_def split: if_splits)

lemma entryCompare_le:
  "(entryCompare f (k, v) (l, w) \<le> 0) = (k < l \<or> (k = l \<and> f v w \<le> 0))"
  by (auto simp: entryCompare_def comparePrimitives_def)

lemma compare_le_rank: "compare x y \<le> 0 \<Longrightarrow> rank x \<le> rank y"
  by (subst (asm) compare_unfold) (auto simp: comparePrimitives_def split: if_splits)

lemma compare_rank_less: "rank x < rank y \<Longrightarrow> compare x y = -1"
  by (subst compare_unfold) (auto simp: comparePrimitives_def)

lemma comparePrimitives_value_le_trans:
  assumes r: "rank x = rank y" "rank y = rank z"
    and p: "isNumber x \<or> isString x \<or> isBoolean x \<or> isDate x \<or> isRegExp x"
    and n: "nan_free x" "nan_free y" "nan_free z"
    and le: "comparePrimitives x y \<le> 0" "comparePrimitives y z \<le> 0"
  shows "comparePrimitives x z \<le> 0"
proof -
  have k: "isNumber y = isNumber x" "isNumber z = isNumber x" "isString y = isString x"
    "isString z = isString x" "isBoolean y = isBoolean x" "isBoolean z = isBoolean x"
    "isDate y = isDate x" "isDate z = isDate x" "isRegExp y = isRegExp x"
    "isRegExp z = isRegExp x"
    using r by (simp_all add: rank_kind)
  consider "isNumber x" "isNumber y" "isNumber z" | "isString x" "isString y" "isString z"
    | "isBoolean x" "isBoolean y" "isBoolean z" | "isDate x" "isDate y" "isDate z"
    | "isRegExp x" "isRegExp y" "isRegExp z"
    using p unfolding k by blast
  then show ?thesis
  proof cases
    case c: 1
    obtain a where ex: "x = Number a"
      using c(1) kind_cases(1) by blast
    obtain b where ey: "y = Number b"
      using c(2) kind_cases(1) by blast
    obtain c where ez: "z = Number c"
      using c(3) kind_cases(1) by blast
    note e = ex ey ez
    show ?thesis
      using n le comparePrimitives_jsnum_le_trans [of a b c]
      by (simp add: e comparePrimitives_value_simps)
  next
    case c: 2
    obtain a where ex: "x = String a"
      using c(1) kind_cases(2) by blast
    obtain b where ey: "y = String b"
      using c(2) kind_cases(2) by blast
    obtain c where ez: "z = String c"
      using c(3) kind_cases(2) by blast
    note e = ex ey ez
    show ?thesis
      using le by (simp add: e comparePrimitives_value_simps comparePrimitives_linorder_le)
  next
    case c: 3
    obtain a where ex: "x = Boolean a"
      using c(1) kind_cases(3) by blast
    obtain b where ey: "y = Boolean b"
      using c(2) kind_cases(3) by blast
    obtain c where ez: "z = Boolean c"
      using c(3) kind_cases(3) by blast
    note e = ex ey ez
    show ?thesis
      using le by (simp add: e comparePrimitives_value_simps comparePrimitives_linorder_le)
  next
    case c: 4
    obtain a where ex: "x = Date a"
      using c(1) kind_cases(4) by blast
    obtain b where ey: "y = Date b"
      using c(2) kind_cases(4) by blast
    obtain c where ez: "z = Date c"
      using c(3) kind_cases(4) by blast
    note e = ex ey ez
    show ?thesis
      using n le comparePrimitives_jsnum_le_trans [of a b c]
      by (simp add: e comparePrimitives_value_simps)
  next
    case c: 5
    obtain s f where ex: "x = RegExp s f"
      using c(1) kind_cases(5) by blast
    obtain t g where ey: "y = RegExp t g"
      using c(2) kind_cases(5) by blast
    obtain u h where ez: "z = RegExp u h"
      using c(3) kind_cases(5) by blast
    note e = ex ey ez
    show ?thesis
      using le by (simp add: e comparePrimitives_value_simps comparePrimitives_linorder_le)
  qed
qed

lemma entryCompare_le_trans:
  assumes tr: "\<And>a b c. a \<in> A \<Longrightarrow> b \<in> A \<Longrightarrow> c \<in> A \<Longrightarrow> f a b \<le> 0 \<Longrightarrow> f b c \<le> 0 \<Longrightarrow> f a c \<le> 0"
    and m: "a \<in> {(k, v). v \<in> A}" "b \<in> {(k, v). v \<in> A}" "c \<in> {(k, v). v \<in> A}"
    and le: "entryCompare f a b \<le> 0" "entryCompare f b c \<le> 0"
  shows "entryCompare f a c \<le> 0"
proof -
  obtain k v l w m u where e: "a = (k, v)" "b = (l, w)" "c = (m, u)"
    by (cases a; cases b; cases c) blast
  have "v \<in> A" "w \<in> A" "u \<in> A" using m e by simp_all
  then have t: "f v w \<le> 0 \<Longrightarrow> f w u \<le> 0 \<Longrightarrow> f v u \<le> 0"
    using tr by blast
  have "k < l \<or> (k = l \<and> f v w \<le> 0)" "l < m \<or> (l = m \<and> f w u \<le> 0)"
    using le unfolding e entryCompare_le by blast+
  then have "k < m \<or> (k = m \<and> f v u \<le> 0)"
    using t by (elim disjE conjE) (simp_all add: less_trans [of k l m])
  then show ?thesis
    unfolding e entryCompare_le .
qed

lemma entryCompare_compare_antisym:
  "entryCompare compare a b = - entryCompare compare b a"
proof -
  obtain k v l w where e: "a = (k, v)" "b = (l, w)"
    by (cases a; cases b) blast
  show ?thesis
    unfolding e by (rule entryCompare_antisym) (rule compare_antisym)
qed

lemma compare_le_trans_bounded:
  "size x < n \<Longrightarrow> size y < n \<Longrightarrow> size z < n \<Longrightarrow> nan_free x \<Longrightarrow> nan_free y \<Longrightarrow> nan_free z \<Longrightarrow>
   compare x y \<le> 0 \<Longrightarrow> compare y z \<le> 0 \<Longrightarrow> compare x z \<le> 0"
proof (induction n arbitrary: x y z)
  case 0
  then show ?case by simp
next
  case (Suc n)
  define A where "A = {v. size v < n \<and> nan_free v}"
  have tr: "\<And>a b c. a \<in> A \<Longrightarrow> b \<in> A \<Longrightarrow> c \<in> A \<Longrightarrow>
      compare a b \<le> 0 \<Longrightarrow> compare b c \<le> 0 \<Longrightarrow> compare a c \<le> 0"
    using Suc.IH unfolding A_def by blast
  have rk: "rank x \<le> rank y" "rank y \<le> rank z"
    using Suc.prems compare_le_rank by blast+
  show ?case
  proof (cases "rank x < rank z")
    case True
    then show ?thesis by (simp add: compare_rank_less)
  next
    case False
    then have r: "rank x = rank y" "rank y = rank z" using rk by simp_all
    note k = rank_same_kind [OF r(1)] rank_same_kind [OF r(2)]
    have rxz: "rank x = rank z" using r by simp
    consider (prim) "isNumber x \<or> isString x \<or> isBoolean x \<or> isDate x \<or> isRegExp x"
      | (obj) "\<not> (isNumber x \<or> isString x \<or> isBoolean x \<or> isDate x \<or> isRegExp x)" "isObject x"
      | (arr) "\<not> (isNumber x \<or> isString x \<or> isBoolean x \<or> isDate x \<or> isRegExp x)"
          "\<not> isObject x" "isArray x"
      | (other) "\<not> (isNumber x \<or> isString x \<or> isBoolean x \<or> isDate x \<or> isRegExp x)"
          "\<not> isObject x" "\<not> isArray x"
      by blast
    then show ?thesis
    proof cases
      case prim
      have "comparePrimitives x y \<le> 0" "comparePrimitives y z \<le> 0"
        using Suc.prems(7,8) r k prim
        by (simp_all add: compare_unfold [of x y] compare_unfold [of y z])
      then have "comparePrimitives x z \<le> 0"
        using comparePrimitives_value_le_trans [OF r prim] Suc.prems(4-6) by blast
      then show ?thesis
        using rxz prim by (simp add: compare_unfold [of x z])
    next
      case obj
      have ob: "isObject x" "isObject y" "isObject z" using obj k by simp_all
      have sub: "set (entries (properties v)) \<subseteq> {(k, u). u \<in> A}"
        if "isObject v" "size v < Suc n" "nan_free v" for v
      proof
        fix e assume "e \<in> set (entries (properties v))"
        then obtain k where e: "e = (k, getProp (properties v) k)"
          using entries_mem by blast
        have "size (getProp (properties v) k) < n"
          using size_getProp_properties [OF that(1), of k] that(2) by simp
        then show "e \<in> {(k, u). u \<in> A}"
          using e nan_free_getProp [OF that(1) that(3)] by (simp add: A_def)
      qed
      have le: "lex (entryCompare compare) (entries (properties x)) (entries (properties y)) \<le> 0"
          "lex (entryCompare compare) (entries (properties y)) (entries (properties z)) \<le> 0"
        using Suc.prems(7,8) r k obj
        by (simp_all add: compare_unfold [of x y] compare_unfold [of y z] compareObjects_lex)
      have "lex (entryCompare compare) (entries (properties x)) (entries (properties z)) \<le> 0"
      proof (rule lex_le_trans [where A = "{(k, u). u \<in> A}", OF _ _ _ _ _ le])
        show "entryCompare compare a b = - entryCompare compare b a" for a b
          by (rule entryCompare_compare_antisym)
        show "entryCompare compare a c \<le> 0"
          if "a \<in> {(k, u). u \<in> A}" "b \<in> {(k, u). u \<in> A}" "c \<in> {(k, u). u \<in> A}"
            "entryCompare compare a b \<le> 0" "entryCompare compare b c \<le> 0" for a b c
          using entryCompare_le_trans [of A compare a b c] tr that by blast
        show "set (entries (properties x)) \<subseteq> {(k, u). u \<in> A}"
          using sub ob(1) Suc.prems(1,4) by blast
        show "set (entries (properties y)) \<subseteq> {(k, u). u \<in> A}"
          using sub ob(2) Suc.prems(2,5) by blast
        show "set (entries (properties z)) \<subseteq> {(k, u). u \<in> A}"
          using sub ob(3) Suc.prems(3,6) by blast
      qed
      then show ?thesis
        using rxz obj by (simp add: compare_unfold [of x z] compareObjects_lex)
    next
      case arr
      have ar: "isArray x" "isArray y" "isArray z" using arr k by simp_all
      have sub: "set (elements v) \<subseteq> A" if "isArray v" "size v < Suc n" "nan_free v" for v
        using size_elements [OF that(1)] nan_free_elements [OF that(1) that(3)] that(2)
        by (fastforce simp: A_def)
      have le: "lex compare (elements x) (elements y) \<le> 0"
          "lex compare (elements y) (elements z) \<le> 0"
        using Suc.prems(7,8) r k arr
        by (simp_all add: compare_unfold [of x y] compare_unfold [of y z] compareArrays_lex)
      have "lex compare (elements x) (elements z) \<le> 0"
      proof (rule lex_le_trans [where A = A, OF _ _ _ _ _ le])
        show "compare a b = - compare b a" for a b by (rule compare_antisym)
        show "compare a c \<le> 0"
          if "a \<in> A" "b \<in> A" "c \<in> A" "compare a b \<le> 0" "compare b c \<le> 0" for a b c
          using tr that by blast
        show "set (elements x) \<subseteq> A" using sub ar(1) Suc.prems(1,4) by blast
        show "set (elements y) \<subseteq> A" using sub ar(2) Suc.prems(2,5) by blast
        show "set (elements z) \<subseteq> A" using sub ar(3) Suc.prems(3,6) by blast
      qed
      then show ?thesis
        using rxz arr by (simp add: compare_unfold [of x z] compareArrays_lex)
    next
      case other
      then show ?thesis
        using rxz by (simp add: compare_unfold [of x z])
    qed
  qed
qed

lemma compare_le_trans:
  "nan_free x \<Longrightarrow> nan_free y \<Longrightarrow> nan_free z \<Longrightarrow>
   compare x y \<le> 0 \<Longrightarrow> compare y z \<le> 0 \<Longrightarrow> compare x z \<le> 0"
  using compare_le_trans_bounded [of x "Suc (size x + size y + size z)" y z] by simp

section \<open>The store\<close>

lemma apply_op_frame: "\<exists>ps. apply_op s op = s @ [ps]"
  by (cases op) (simp_all add: ifType_st_def thenTypeObject_st_def thenTypeArray_st_def new_Builder_def)

lemma run_frame: "this < length s \<Longrightarrow> this < length (run s ops) \<and> run s ops ! this = s ! this"
proof (induction ops arbitrary: s)
  case Nil
  then show ?case by simp
next
  case (Cons op ops)
  obtain ps where e: "apply_op s op = s @ [ps]" using apply_op_frame by blast
  have "this < length (s @ [ps])" using Cons.prems by simp
  from Cons.IH [OF this] show ?case
    using Cons.prems by (simp add: e nth_append)
qed

section \<open>The claims\<close>

text \<open>
  C1 as stated fails. With NaN, which compares equal to every number, the comparator is not
  transitive: \<open>compare(1, NaN) = 0\<close> and \<open>compare(NaN, 2) = 0\<close> but \<open>compare(1, 2) = -1\<close>; and
  \<open>[2, 0] < [NaN, 1] < [1, 2]\<close> while \<open>compare([2, 0], [1, 2]) = 1\<close>.
\<close>

theorem C1_transitivity_counterexample:
  "compare (Number (Fin 1)) (Number NaN) = 0
   \<and> compare (Number NaN) (Number (Fin 2)) = 0
   \<and> compare (Number (Fin 1)) (Number (Fin 2)) \<noteq> 0
   \<and> compare (Array [Number (Fin 2), Number (Fin 0)]) (Array [Number NaN, Number (Fin 1)]) < 0
   \<and> compare (Array [Number NaN, Number (Fin 1)]) (Array [Number (Fin 1), Number (Fin 2)]) < 0
   \<and> \<not> compare (Array [Number (Fin 2), Number (Fin 0)]) (Array [Number (Fin 1), Number (Fin 2)]) < 0"
  by (simp add: compare_unfold compareArrays_lex comparePrimitives_value_simps
      comparePrimitives_NaN)
     (simp add: comparePrimitives_def less_jsnum_def)

text \<open>
  C1, amended. For the default comparator and all values \<open>x\<close>, \<open>y\<close>, \<open>z\<close> that contain no NaN
  (no NaN number and no invalid date at any depth): if \<open>compare(x,y) < 0\<close> and
  \<open>compare(y,z) < 0\<close> then \<open>compare(x,z) < 0\<close>; if \<open>compare(x,y) > 0\<close> and \<open>compare(y,z) > 0\<close> then
  \<open>compare(x,z) > 0\<close>; and if \<open>compare(x,y) = 0\<close> and \<open>compare(y,z) = 0\<close> then \<open>compare(x,z) = 0\<close>.
\<close>

theorem C1_transitivity_without_nan:
  assumes "nan_free x" "nan_free y" "nan_free z"
  shows "(compare x y < 0 \<and> compare y z < 0 \<longrightarrow> compare x z < 0)
    \<and> (compare x y > 0 \<and> compare y z > 0 \<longrightarrow> compare x z > 0)
    \<and> (compare x y = 0 \<and> compare y z = 0 \<longrightarrow> compare x z = 0)"
proof -
  have lt: "compare a c < 0"
    if "nan_free a" "nan_free b" "nan_free c" "compare a b < 0" "compare b c < 0" for a b c
  proof -
    have le: "compare a c \<le> 0"
      using compare_le_trans [OF that(1-3)] that(4,5) by simp
    have "compare a c \<noteq> 0"
    proof
      assume "compare a c = 0"
      then have "compare c a \<le> 0" using compare_antisym [of c a] by simp
      then have "compare b a \<le> 0"
        using compare_le_trans [OF that(2) that(3) that(1)] that(5) by simp
      then show False using compare_antisym [of a b] that(4) by simp
    qed
    then show ?thesis using le by simp
  qed
  have gt: "compare x y > 0 \<Longrightarrow> compare y z > 0 \<Longrightarrow> compare x z > 0"
  proof -
    assume "compare x y > 0" "compare y z > 0"
    then have "compare z y < 0" "compare y x < 0"
      using compare_antisym [of x y] compare_antisym [of y z] by simp_all
    then have "compare z x < 0" using lt [OF assms(3) assms(2) assms(1)] by simp
    then show ?thesis using compare_antisym [of x z] by simp
  qed
  have eq: "compare x y = 0 \<Longrightarrow> compare y z = 0 \<Longrightarrow> compare x z = 0"
  proof -
    assume e: "compare x y = 0" "compare y z = 0"
    then have "compare x z \<le> 0"
      using compare_le_trans [OF assms] by simp
    moreover have "compare z y = 0" "compare y x = 0"
      using e compare_antisym [of x y] compare_antisym [of y z] by simp_all
    then have "compare z x \<le> 0"
      using compare_le_trans [OF assms(3) assms(2) assms(1)] by simp
    then have "compare x z \<ge> 0" using compare_antisym [of x z] by simp
    ultimately show ?thesis by simp
  qed
  show ?thesis
    using lt [OF assms] gt eq by blast
qed

theorem C1_transitivity_without_nan_witness:
  "nan_free (Number (Fin 1)) \<and> nan_free (String (str ''a'')) \<and> nan_free (Array [Number (Fin 3)])
   \<and> compare (Number (Fin 1)) (String (str ''a'')) < 0
   \<and> compare (String (str ''a'')) (Array [Number (Fin 3)]) < 0
   \<and> compare (Number (Fin 1)) (Array [Number (Fin 3)]) < 0"
  using C1_transitivity_without_nan [of "Number (Fin 1)" "String (str ''a'')" "Array [Number (Fin 3)]"]
  by (simp add: compare_unfold comparePrimitives_def)

text \<open>
  C2. For the default comparator and every pair of values, \<open>compare(x, y) = -compare(y, x)\<close>,
  as integers and not only in sign.
\<close>

theorem C2_antisymmetry: "compare x y = - compare y x"
  by (rule compare_antisym)

text \<open>
  C3. For the default comparator and every value \<open>x\<close>, \<open>compare(x, x) = 0\<close>; in particular
  \<open>compare(NaN, NaN) = 0\<close>.
\<close>

theorem C3_reflexivity: "compare x x = 0 \<and> compare (Number NaN) (Number NaN) = 0"
  by (simp add: compare_refl)

text \<open>
  C4. For the comparator obtained from any builder by \<open>get()\<close> and any two values: with \<open>i\<close>
  and \<open>j\<close> the highest indices of rules whose predicates accept \<open>x\<close> and \<open>y\<close> (\<open>-1\<close> if none),
  the result is \<open>comparePrimitives(i, j)\<close> when \<open>i \<noteq> j\<close>; it is the comparator of rule \<open>i\<close> applied
  to \<open>(x, y)\<close> when \<open>i = j \<ge> 0\<close> and the rule carries one; otherwise it is the structural
  comparison of objects and arrays, which is 0 when neither value is an object or an array.
\<close>

theorem C4_dispatch:
  "let i = spec_highest (plugins this) x; j = spec_highest (plugins this) y in
   (i \<noteq> j \<longrightarrow> get this x y = comparePrimitives i j)
   \<and> (i = j \<and> 0 \<le> i \<longrightarrow> (\<forall>c. cmp (plugins this ! nat i) = Some c \<longrightarrow> get this x y = c x y))
   \<and> (i = j \<and> (i < 0 \<or> cmp (plugins this ! nat i) = None) \<longrightarrow>
        get this x y =
          (if isObject x then
             (if isObject y then compareObjects (properties x) (properties y) (get this) else -1)
           else if isArray x then
             (if isArray y then compareArrays (elements x) (elements y) (get this) else 1)
           else 0)
        \<and> (\<not> isObject x \<and> \<not> isArray x \<and> \<not> isObject y \<and> \<not> isArray y \<longrightarrow> get this x y = 0))"
  by (subst get_unfold, subst get_unfold, subst get_unfold, subst get_unfold)
     (auto simp: Let_def)

theorem C4_dispatch_witness:
  "spec_highest (plugins builder) (Number (Fin 1)) = 2
   \<and> spec_highest (plugins builder) (String (str ''a'')) = 3
   \<and> spec_highest (plugins builder) (Array []) = 5
   \<and> spec_highest (plugins builder) (Opaque 0) = -1
   \<and> cmp (plugins builder ! 2) = Some comparePrimitives
   \<and> cmp (plugins builder ! 5) = None
   \<and> get builder (Number (Fin 1)) (String (str ''a'')) = -1
   \<and> get builder (Number (Fin 2)) (Number (Fin 1)) = 1
   \<and> get builder (Array []) (Array []) = compareArrays [] [] (get builder)
   \<and> get builder (Opaque 0) (Opaque 1) = 0"
proof -
  have h: "spec_highest (plugins builder) (Number (Fin 1)) = 2"
    "spec_highest (plugins builder) (Number (Fin 2)) = 2"
    "spec_highest (plugins builder) (String (str ''a'')) = 3"
    "spec_highest (plugins builder) (Array []) = 5"
    "spec_highest (plugins builder) (Opaque 0) = -1"
    "spec_highest (plugins builder) (Opaque 1) = -1"
    by (simp_all add: spec_highest_builder)
  have c: "cmp (plugins builder ! 2) = Some comparePrimitives" "cmp (plugins builder ! 5) = None"
    by (simp_all add: plugins_builder)
  have v: "comparePrimitives (Number (Fin 2)) (Number (Fin 1)) = 1"
    unfolding comparePrimitives_value_simps by (simp add: comparePrimitives_def less_jsnum_def)
  have 1: "get builder (Number (Fin 1)) (String (str ''a'')) = -1"
    using C4_dispatch [of builder "Number (Fin 1)" "String (str ''a'')"]
    unfolding Let_def h by (simp add: comparePrimitives_def)
  have 2: "get builder (Number (Fin 2)) (Number (Fin 1)) = 1"
    using C4_dispatch [of builder "Number (Fin 2)" "Number (Fin 1)"]
    unfolding Let_def h by (simp add: c v)
  have 3: "get builder (Array []) (Array []) = compareArrays [] [] (get builder)"
    using C4_dispatch [of builder "Array []" "Array []"]
    unfolding Let_def h by (simp add: c)
  have 4: "get builder (Opaque 0) (Opaque 1) = 0"
    using C4_dispatch [of builder "Opaque 0" "Opaque 1"]
    unfolding Let_def h by simp
  show ?thesis
    using h c 1 2 3 4 by simp
qed

text \<open>
  C5. For the default comparator, when \<open>x\<close> and \<open>y\<close> belong to two different default
  categories the result is -1 if the category of \<open>x\<close> comes earlier in the order absent
  marker, null, number, string, object, array, boolean, date, pattern, and +1 if it comes
  later, whatever the contents.
\<close>

theorem C5_category_precedence:
  assumes "categoryOf x = Some a" "categoryOf y = Some b" "a \<noteq> b"
  shows "compare x y = (if position a < position b then -1 else 1)"
proof -
  have r: "rank x = int (position a)" "rank y = int (position b)"
    using assms by (simp_all add: rank_category)
  have "position a \<noteq> position b" using assms(3) position_inj by blast
  then show ?thesis
    unfolding compare_unfold [of x y] r by (auto simp: comparePrimitives_def)
qed

theorem C5_category_precedence_witness:
  "categoryOf (Object [(str ''z'', Number (Fin 9))]) = Some ObjectCat
   \<and> categoryOf (Array []) = Some ArrayCat \<and> ObjectCat \<noteq> ArrayCat
   \<and> compare (Object [(str ''z'', Number (Fin 9))]) (Array []) = -1"
  using C5_category_precedence [of "Object [(str ''z'', Number (Fin 9))]" ObjectCat "Array []" ArrayCat]
  by simp

text \<open>
  C6. \<open>compareObjects\<close> is the lockstep walk over the two sorted key lists of the
  specification: keys first, then values, the object with fewer keys smaller when the walk
  ends. Under the default comparator \<open>compare({a:1,b:2}, {b:2,a:1}) = 0\<close> and
  \<open>compare({a:1,b:1}, {a:1,c:1}) = -1\<close>.
\<close>

theorem C6_compareObjects:
  "compareObjects x y compareValue = spec_compareObjects x y compareValue
   \<and> compare (Object [(str ''a'', Number (Fin 1)), (str ''b'', Number (Fin 2))])
        (Object [(str ''b'', Number (Fin 2)), (str ''a'', Number (Fin 1))]) = 0
   \<and> compare (Object [(str ''a'', Number (Fin 1)), (str ''b'', Number (Fin 1))])
        (Object [(str ''a'', Number (Fin 1)), (str ''c'', Number (Fin 1))]) = -1"
  using compare_key_order_example compare_key_tiebreak_example by (simp add: compareObjects_spec)

text \<open>
  C7. When the default builder is extended by \<open>ifType\<close> with a rule for a custom type, under
  the comparator of the extended builder every value the new predicate accepts compares
  greater than every value it rejects (whether or not an earlier predicate accepts the
  former too), and two values it accepts are compared by the supplied comparator.
\<close>

theorem C7_custom_type_after_builtins:
  "let compare' = get (ifType builder p c) in
   (p x \<and> \<not> p y \<longrightarrow> compare' x y = 1 \<and> compare' y x = -1)
   \<and> (p x \<and> p y \<longrightarrow> compare' x y = c x y)"
  using get_ifType_above [of p x y builder c] get_ifType_last [of p x y builder c]
  by (simp add: Let_def)

theorem C7_custom_type_after_builtins_witness:
  "isBox (Box 1) \<and> \<not> isBox (Object [(str ''value'', Number (Fin 1))]) \<and> isBox (Box 2)
   \<and> get (ifType builder isBox compareBox) (Box 1) (Object [(str ''value'', Number (Fin 1))]) = 1
   \<and> get (ifType builder isBox compareBox) (Object [(str ''value'', Number (Fin 1))]) (Box 1) = -1
   \<and> get (ifType builder isBox compareBox) (Box 1) (Box 2) = -1"
  using C7_custom_type_after_builtins [of isBox compareBox "Box 1"
      "Object [(str ''value'', Number (Fin 1))]"]
    C7_custom_type_after_builtins [of isBox compareBox "Box 1" "Box 2"]
  by (simp add: Let_def isBox_def Box_def compareBox_def boxValue_def getProp_def)

text \<open>
  C8. Each of \<open>ifType\<close>, \<open>thenTypeObject\<close> and \<open>thenTypeArray\<close> returns a new builder with
  the receiver's rule list extended by one rule and leaves the receiver's rule list as it
  was; and the comparator obtained from a builder by \<open>get()\<close> behaves the same after any
  sequence of further builder operations.
\<close>

theorem C8_builder_operations_frame:
  assumes "this < length s"
  shows "(case ifType_st s this p c of (s', b) \<Rightarrow>
            s' ! b = s ! this @ [\<lparr>predicate = p, cmp = Some c\<rparr>] \<and> s' ! this = s ! this)
    \<and> (case thenTypeObject_st s this of (s', b) \<Rightarrow>
            s' ! b = s ! this @ [\<lparr>predicate = isObject, cmp = None\<rparr>] \<and> s' ! this = s ! this)
    \<and> (case thenTypeArray_st s this of (s', b) \<Rightarrow>
            s' ! b = s ! this @ [\<lparr>predicate = isArray, cmp = None\<rparr>] \<and> s' ! this = s ! this)
    \<and> get_st this (run s ops) = get_st this s"
  using assms run_frame [OF assms, of ops]
  by (simp add: ifType_st_def thenTypeObject_st_def thenTypeArray_st_def new_Builder_def
      get_st_def nth_append)

theorem C8_builder_operations_frame_witness:
  "(0::nat) < length [plugins builder]
   \<and> get_st 0 (run [plugins builder] [IfType 0 isBox compareBox, ThenTypeArray 1])
        (Number (Fin 1)) (String (str ''a'')) = -1
   \<and> snd (ifType_st [plugins builder] 0 isBox compareBox) = 1
   \<and> fst (ifType_st [plugins builder] 0 isBox compareBox) ! 0 = plugins builder"
proof -
  have h: "(0::nat) < length [plugins builder]" by simp
  have g: "get_st 0 [plugins builder] (Number (Fin 1)) (String (str ''a'')) = -1"
    using compare_unfold [of "Number (Fin 1)" "String (str ''a'')"]
    by (simp add: get_st_def compare_def comparePrimitives_def)
  show ?thesis
    using C8_builder_operations_frame [OF h, of isBox compareBox
        "[IfType 0 isBox compareBox, ThenTypeArray 1]"] g
    by (simp add: ifType_st_def new_Builder_def)
qed

text \<open>
  C9. For the default comparator and every number \<open>r\<close>, the infinities and NaN itself
  included, \<open>compare(NaN, r) = 0\<close> and \<open>compare(r, NaN) = 0\<close>.
\<close>

theorem C9_nan_equal_to_every_number:
  "compare (Number NaN) (Number r) = 0 \<and> compare (Number r) (Number NaN) = 0"
  by (simp add: compare_unfold comparePrimitives_value_simps comparePrimitives_NaN)

text \<open>
  C10. For the comparator of \<open>Builder.create().get()\<close>: if \<open>x\<close> is an object and \<open>y\<close> is
  neither an object nor an array then \<open>compare(x, y) = -1\<close> and \<open>compare(y, x) = 0\<close>; if \<open>x\<close> is
  an array and \<open>y\<close> is neither then \<open>compare(x, y) = 1\<close> and \<open>compare(y, x) = 0\<close>.
\<close>

theorem C10_empty_builder:
  "(isObject x \<and> \<not> isObject y \<and> \<not> isArray y \<longrightarrow> get create x y = -1 \<and> get create y x = 0)
   \<and> (isArray x \<and> \<not> isObject y \<and> \<not> isArray y \<longrightarrow> get create x y = 1 \<and> get create y x = 0)"
proof -
  have "isArray x \<Longrightarrow> \<not> isObject x" by (cases x) simp_all
  then show ?thesis
    by (simp add: get_create [of x y] get_create [of y x])
qed

theorem C10_empty_builder_witness:
  "isObject (Object []) \<and> \<not> isObject (Number (Fin 1)) \<and> \<not> isArray (Number (Fin 1))
   \<and> isArray (Array []) 
   \<and> get create (Object []) (Number (Fin 1)) = -1 \<and> get create (Number (Fin 1)) (Object []) = 0
   \<and> get create (Array []) (Number (Fin 1)) = 1 \<and> get create (Number (Fin 1)) (Array []) = 0"
  using C10_empty_builder [of "Object []" "Number (Fin 1)"]
    C10_empty_builder [of "Array []" "Number (Fin 1)"]
  by simp

end
